theory Spec2Isabelle
  imports Main "HOL-Library.Sublist"
begin

section \<open>Values exchanged with the backend and the tool server\<close>

text \<open>
  The body of a failed request, as \<^verbatim>\<open>e.response.json()\<close> returns it: any JSON value.
  An object is the Python dict it parses to, kept as an association list read with
  \<open>map_of\<close>. The code never reads a number, so one constructor stands for all of them.
\<close>

datatype json =
    JNull
  | JBool bool
  | JNum int
  | JStr string
  | JArr "json list"
  | JObj "(string \<times> json) list"

text \<open>
  The exceptions of the program. \<open>ClientError code body\<close> is
  \<^verbatim>\<open>genai.errors.ClientError\<close> with its HTTP status code; \<open>body\<close> is \<open>None\<close> when
  \<^verbatim>\<open>e.response.json()\<close> raises. \<open>BackendError\<close> is any other exception of
  \<^verbatim>\<open>generate_content\<close> (a server error, the transport), \<open>ToolError\<close> one of
  \<^verbatim>\<open>session.call_tool\<close>; the others are Python's own.
\<close>

datatype exn =
    ClientError int "json option"
  | BackendError string
  | ToolError string
  | AttributeError
  | TypeError
  | IndexError
  | ValueError
  | EOFError

record function_call =
  name :: string
  args :: json

record function_response =
  fr_name :: string
  response :: json

text \<open>\<^verbatim>\<open>types.Part\<close>: every field is optional, and the code tests each for presence.\<close>

record part =
  part_text :: "string option"
  function_call :: "function_call option"
  function_response :: "function_response option"

text \<open>
  \<^verbatim>\<open>types.Content\<close>. A missing \<open>parts\<close> list is the empty list here: the code only tests
  it for truth or indexes it, and indexing raises in both cases.
\<close>

record content =
  role :: "string option"
  parts :: "part list"

record candidate =
  content :: "content option"

text \<open>A response; missing candidates are the empty list, for the same reason.\<close>

record gen_response =
  candidates :: "candidate list"

datatype gen_outcome = GenOk gen_response | GenRaise exn

text \<open>
  An element of a tool result: only a text element has the attribute \<^verbatim>\<open>text\<close>,
  reading it on another kind (an image, an embedded resource) raises AttributeError.
\<close>

datatype content_block = TextContent string | OtherContent

record call_tool_result =
  result_content :: "content_block list"
  isError :: bool

datatype tool_outcome = ToolReturn call_tool_result | ToolRaise string

section \<open>What the program does to the outside\<close>

text \<open>Everything written to the terminal, one constructor per \<^verbatim>\<open>print\<close> of the source.\<close>

datatype message =
    Banner
  | SessionInitialized
  | AvailableTools "string list"
  | Exiting
  | ShowPart part
  | ToolRequested string json
  | ToolResult call_tool_result
  | Assistant string
  | ToolFailed string
  | NoResponse
  | QuotaRetry int int int
  | MaxRetriesHit
  | UnexpectedError json
  | FailedToParseResponse
  | ErrorParsingDelay exn

datatype event =
    ReadInput string
  | Generate "content option list"
  | Sleep int
  | CallTool string json
  | Out message
  | LogError string exn

text \<open>
  \<open>Sleep d\<close> is \<^verbatim>\<open>await asyncio.sleep(d)\<close>, \<open>Generate cs\<close> a call of the backend with the
  conversation \<open>cs\<close>, \<open>CallTool\<close> a call of the tool server, \<open>LogError\<close> the line of
  \<^verbatim>\<open>logging.error\<close>.

  The state of the process: the conversation memory \<^verbatim>\<open>contents\<close> (an entry is \<open>None\<close>
  when a candidate without content was appended), the events so far, and how many times
  the backend and the tool server have been called. The backend and the tool server are
  functions of the call's number and its arguments, so that they may answer each call
  differently. The model id, the tool declarations and the temperature are the same in
  every call and are left out.
\<close>

record world =
  contents :: "content option list"
  trace :: "event list"
  gen_calls :: nat
  tool_calls :: nat

type_synonym backend = "nat \<Rightarrow> content option list \<Rightarrow> gen_outcome"
type_synonym tool_server = "nat \<Rightarrow> string \<Rightarrow> json \<Rightarrow> tool_outcome"

definition emit :: "event \<Rightarrow> world \<Rightarrow> world" where
  "emit ev w = w\<lparr>trace := trace w @ [ev]\<rparr>"

definition append_content :: "content option \<Rightarrow> world \<Rightarrow> world" where
  "append_content c w = w\<lparr>contents := contents w @ [c]\<rparr>"

fun sleeps :: "event list \<Rightarrow> int list" where
  "sleeps [] = []"
| "sleeps (Sleep d # evs) = d # sleeps evs"
| "sleeps (_ # evs) = sleeps evs"

fun generations :: "event list \<Rightarrow> content option list list" where
  "generations [] = []"
| "generations (Generate cs # evs) = cs # generations evs"
| "generations (_ # evs) = generations evs"

fun tool_invocations :: "event list \<Rightarrow> (string \<times> json) list" where
  "tool_invocations [] = []"
| "tool_invocations (CallTool n a # evs) = (n, a) # tool_invocations evs"
| "tool_invocations (_ # evs) = tool_invocations evs"


section \<open>Python's string and dict operations\<close>

text \<open>
  Strings are ASCII here. \<open>is_space\<close> is the ASCII part of what \<^verbatim>\<open>str.strip()\<close> and
  \<^verbatim>\<open>int()\<close> take for whitespace: 9 to 13 and 28 to 32.
\<close>

definition is_space :: "char \<Rightarrow> bool" where
  "is_space c = (let n = (of_char c :: nat) in (9 \<le> n \<and> n \<le> 13) \<or> (28 \<le> n \<and> n \<le> 32))"

definition is_digit :: "char \<Rightarrow> bool" where
  "is_digit c = (let n = (of_char c :: nat) in 48 \<le> n \<and> n \<le> 57)"

definition digit_val :: "char \<Rightarrow> nat" where
  "digit_val c = (of_char c :: nat) - 48"

definition lower_char :: "char \<Rightarrow> char" where
  "lower_char c = (let n = (of_char c :: nat) in if 65 \<le> n \<and> n \<le> 90 then char_of (n + 32) else c)"

definition py_lower :: "string \<Rightarrow> string" where
  "py_lower s = map lower_char s"

text \<open>\<^verbatim>\<open>s.strip(chars)\<close> and \<^verbatim>\<open>s.strip()\<close>: both ends, as long as the character is in the set.\<close>

definition strip_while :: "(char \<Rightarrow> bool) \<Rightarrow> string \<Rightarrow> string" where
  "strip_while P s = rev (dropWhile P (rev (dropWhile P s)))"

definition py_strip_chars :: "string \<Rightarrow> string \<Rightarrow> string" where
  "py_strip_chars chars s = strip_while (\<lambda>c. c \<in> set chars) s"

definition py_strip :: "string \<Rightarrow> string" where
  "py_strip s = strip_while is_space s"

text \<open>
  \<^verbatim>\<open>int(s)\<close> in base 10: surrounding whitespace, one optional sign, then digits, where
  single underscores may stand between two digits. CPython refuses a string of more than
  4300 digits (its default limit); anything else that is not of this form raises
  ValueError, which is \<open>None\<close> here.
\<close>

fun parse_digits :: "nat \<Rightarrow> bool \<Rightarrow> string \<Rightarrow> nat option" where
  "parse_digits acc prev_digit [] = (if prev_digit then Some acc else None)"
| "parse_digits acc prev_digit (c # cs) =
     (if is_digit c then parse_digits (acc * 10 + digit_val c) True cs
      else if c = CHR ''_'' \<and> prev_digit then parse_digits acc False cs
      else None)"

definition int_max_str_digits :: nat where
  "int_max_str_digits = 4300"

definition py_int :: "string \<Rightarrow> int option" where
  "py_int s =
     (let t = py_strip s in
      if length (filter is_digit t) > int_max_str_digits then None
      else case t of
        [] \<Rightarrow> None
      | c # cs \<Rightarrow>
          if c = CHR ''-'' then map_option (\<lambda>n. - int n) (parse_digits 0 False cs)
          else if c = CHR ''+'' then map_option int (parse_digits 0 False cs)
          else map_option int (parse_digits 0 False t))"

text \<open>\<^verbatim>\<open>d.get(key, default)\<close>: only a dict has the method.\<close>

fun py_get :: "json \<Rightarrow> string \<Rightarrow> json \<Rightarrow> exn + json" where
  "py_get (JObj kvs) k d = Inr (case map_of kvs k of None \<Rightarrow> d | Some v \<Rightarrow> v)"
| "py_get _ k d = Inl AttributeError"

text \<open>
  \<^verbatim>\<open>for detail in v\<close>: a list gives its elements, a dict its keys, a string its
  characters; nothing else is iterable.
\<close>

fun py_iter :: "json \<Rightarrow> exn + json list" where
  "py_iter (JArr xs) = Inr xs"
| "py_iter (JObj kvs) = Inr (map (\<lambda>kv. JStr (fst kv)) kvs)"
| "py_iter (JStr s) = Inr (map (\<lambda>c. JStr [c]) s)"
| "py_iter _ = Inl TypeError"

section \<open>generate\_with\_retry\<close>

definition retry_info_type :: string where
  "retry_info_type = ''type.googleapis.com/google.rpc.RetryInfo''"

text \<open>\<^verbatim>\<open>error_data.get("error", {})\<close>, then \<^verbatim>\<open>.get("status", "")\<close> on it (line 53).\<close>

definition error_field :: "json \<Rightarrow> exn + json" where
  "error_field error_data = py_get error_data ''error'' (JObj [])"

definition error_status :: "json \<Rightarrow> exn + json" where
  "error_status error_data =
     (case error_field error_data of
        Inl x \<Rightarrow> Inl x
      | Inr err \<Rightarrow> py_get err ''status'' (JStr ''''))"

definition is_rate_limit_status :: "json \<Rightarrow> bool" where
  "is_rate_limit_status status =
     (status = JStr ''RESOURCE_EXHAUSTED'' \<or> status = JStr ''429 RESOURCE_EXHAUSTED''
      \<or> status = JStr ''Too Many Requests'')"

text \<open>
  \<^verbatim>\<open>int(detail.get("retryDelay", "30s").strip("s"))\<close>: only a string has \<^verbatim>\<open>strip\<close>.
\<close>

definition parse_retry_delay :: "json \<Rightarrow> exn + int" where
  "parse_retry_delay detail =
     (case py_get detail ''retryDelay'' (JStr ''30s'') of
        Inl x \<Rightarrow> Inl x
      | Inr (JStr s) \<Rightarrow>
          (case py_int (py_strip_chars ''s'' s) of
             None \<Rightarrow> Inl ValueError
           | Some n \<Rightarrow> Inr n)
      | Inr _ \<Rightarrow> Inl AttributeError)"

text \<open>
  The loop over the details (lines 57 to 60): \<open>Inr None\<close> when it ends without reaching
  \<^verbatim>\<open>break\<close>, \<open>Inr (Some n)\<close> when the first RetryInfo detail gave \<open>n\<close>, \<open>Inl\<close> when a step
  raised.
\<close>

fun scan_details :: "json list \<Rightarrow> exn + int option" where
  "scan_details [] = Inr None"
| "scan_details (detail # rest) =
     (case py_get detail ''@type'' JNull of
        Inl x \<Rightarrow> Inl x
      | Inr t \<Rightarrow>
          if t = JStr retry_info_type
          then (case parse_retry_delay detail of Inl x \<Rightarrow> Inl x | Inr n \<Rightarrow> Inr (Some n))
          else scan_details rest)"

text \<open>The body of the inner \<^verbatim>\<open>try\<close> (lines 57 to 60).\<close>

definition retry_delay_try :: "json \<Rightarrow> exn + int option" where
  "retry_delay_try error_data =
     (case error_field error_data of
        Inl x \<Rightarrow> Inl x
      | Inr err \<Rightarrow>
          (case py_get err ''details'' (JArr []) of
             Inl x \<Rightarrow> Inl x
           | Inr ds \<Rightarrow>
               (case py_iter ds of
                  Inl x \<Rightarrow> Inl x
                | Inr details \<Rightarrow> scan_details details)))"

text \<open>\<^verbatim>\<open>retry_delay\<close> after lines 55 to 62: 30 unless the scan assigned it.\<close>

definition retry_delay :: "json \<Rightarrow> int" where
  "retry_delay error_data =
     (case retry_delay_try error_data of
        Inr (Some n) \<Rightarrow> n
      | Inr None \<Rightarrow> 30
      | Inl x \<Rightarrow> 30)"

text \<open>Line 62: the exception of the inner \<^verbatim>\<open>try\<close>, if any, is printed.\<close>

definition note_delay_error :: "json \<Rightarrow> world \<Rightarrow> world" where
  "note_delay_error error_data w =
     (case retry_delay_try error_data of
        Inl x \<Rightarrow> emit (Out (ErrorParsingDelay x)) w
      | Inr _ \<Rightarrow> w)"

text \<open>
  The handler of \<^verbatim>\<open>ClientError\<close> (lines 46 to 72) in attempt \<open>attempt\<close>: \<open>Inl\<close> is the
  exception that leaves the function, \<open>Inr ()\<close> lets the loop go on.
\<close>

definition on_client_error :: "int \<Rightarrow> int \<Rightarrow> int \<Rightarrow> json option \<Rightarrow> world \<Rightarrow> (exn + unit) \<times> world" where
  "on_client_error max_retries attempt code body w =
     (case body of
        None \<Rightarrow> (Inl (ClientError code body), emit (Out FailedToParseResponse) w)
      | Some error_data \<Rightarrow>
          (case error_status error_data of
             Inl x \<Rightarrow> (Inl x, w)
           | Inr status \<Rightarrow>
               if is_rate_limit_status status then
                 (let w1 = note_delay_error error_data w;
                      d = retry_delay error_data
                  in if attempt < max_retries - 1
                     then (Inr (), emit (Sleep d) (emit (Out (QuotaRetry d (attempt + 1) max_retries)) w1))
                     else (Inl (ClientError code body), emit (Out MaxRetriesHit) w1))
               else (Inl (ClientError code body), emit (Out (UnexpectedError error_data)) w)))"

text \<open>One call of \<^verbatim>\<open>client.models.generate_content\<close> with the conversation memory.\<close>

definition call_generate :: "backend \<Rightarrow> world \<Rightarrow> gen_outcome \<times> world" where
  "call_generate gen w =
     (gen (gen_calls w) (contents w),
      (emit (Generate (contents w)) w)\<lparr>gen_calls := Suc (gen_calls w)\<rparr>)"

text \<open>
  \<^verbatim>\<open>for attempt in range(max_retries)\<close>, from attempt \<open>attempt\<close> on. \<open>Inr None\<close> is the
  function falling off its end, which returns \<^verbatim>\<open>None\<close>.
\<close>

function retry_loop :: "backend \<Rightarrow> int \<Rightarrow> int \<Rightarrow> world \<Rightarrow> (exn + gen_response option) \<times> world" where
  "retry_loop gen max_retries attempt w =
     (if attempt < max_retries then
        (case call_generate gen w of
           (GenOk r, w1) \<Rightarrow> (Inr (Some r), w1)
         | (GenRaise (ClientError code body), w1) \<Rightarrow>
             (case on_client_error max_retries attempt code body w1 of
                (Inl x, w2) \<Rightarrow> (Inl x, w2)
              | (Inr u, w2) \<Rightarrow> retry_loop gen max_retries (attempt + 1) w2)
         | (GenRaise e, w1) \<Rightarrow> (Inl e, w1))
      else (Inr None, w))"
  by pat_completeness auto
termination
  by (relation "measure (\<lambda>(gen, max_retries, attempt, w). nat (max_retries - attempt))") auto

definition generate_with_retry :: "backend \<Rightarrow> int \<Rightarrow> world \<Rightarrow> (exn + gen_response option) \<times> world" where
  "generate_with_retry gen max_retries w = retry_loop gen max_retries 0 w"

definition default_max_retries :: int where
  "default_max_retries = 3"

section \<open>The interactive loop of run\<close>

definition text_part :: "string \<Rightarrow> part" where
  "text_part s = \<lparr>part_text = Some s, function_call = None, function_response = None\<rparr>"

definition function_call_part :: "function_call \<Rightarrow> part" where
  "function_call_part fc = \<lparr>part_text = None, function_call = Some fc, function_response = None\<rparr>"

text \<open>\<^verbatim>\<open>types.Part.from_function_response(name=..., response=...)\<close>.\<close>

definition from_function_response :: "string \<Rightarrow> json \<Rightarrow> part" where
  "from_function_response n r =
     \<lparr>part_text = None, function_call = None,
      function_response = Some \<lparr>fr_name = n, response = r\<rparr>\<rparr>"

definition user_turn :: "part \<Rightarrow> content" where
  "user_turn p = \<lparr>role = Some ''user'', parts = [p]\<rparr>"

definition model_turn :: "part \<Rightarrow> content" where
  "model_turn p = \<lparr>role = Some ''model'', parts = [p]\<rparr>"

text \<open>
  \<^verbatim>\<open>tool_result.content[0].text if tool_result.content else "No result returned"\<close>.
\<close>

definition result_text :: "call_tool_result \<Rightarrow> exn + string" where
  "result_text tool_result =
     (case result_content tool_result of
        [] \<Rightarrow> Inr ''No result returned''
      | TextContent t # _ \<Rightarrow> Inr t
      | OtherContent # _ \<Rightarrow> Inl AttributeError)"

text \<open>Lines 168 to 170: every part with a non-empty text is shown.\<close>

fun show_final_parts :: "part list \<Rightarrow> world \<Rightarrow> world" where
  "show_final_parts [] w = w"
| "show_final_parts (p # ps) w =
     show_final_parts ps
       (case part_text p of
          Some t \<Rightarrow> if t \<noteq> [] then emit (Out (Assistant t)) w else w
        | None \<Rightarrow> w)"

text \<open>
  Lines 180 to 184: a part with a non-empty text is shown; otherwise, if it carries a
  function call, the request is shown.
\<close>

definition show_request :: "part \<Rightarrow> world \<Rightarrow> world" where
  "show_request p w =
     (case function_call p of
        Some fc \<Rightarrow> emit (Out (ToolRequested (name fc) (args fc))) w
      | None \<Rightarrow> w)"

definition show_part :: "part \<Rightarrow> world \<Rightarrow> world" where
  "show_part p w =
     (case part_text p of
        Some t \<Rightarrow> if t \<noteq> [] then emit (Out (Assistant t)) w else show_request p w
      | None \<Rightarrow> show_request p w)"

fun show_parts :: "part list \<Rightarrow> world \<Rightarrow> world" where
  "show_parts [] w = w"
| "show_parts (p # ps) w = show_parts ps (show_part p w)"

text \<open>One call of \<^verbatim>\<open>session.call_tool\<close>.\<close>

definition call_tool :: "tool_server \<Rightarrow> function_call \<Rightarrow> world \<Rightarrow> tool_outcome \<times> world" where
  "call_tool tool fc w =
     (tool (tool_calls w) (name fc) (args fc),
      (emit (CallTool (name fc) (args fc)) w)\<lparr>tool_calls := Suc (tool_calls w)\<rparr>)"

text \<open>
  The body of the \<^verbatim>\<open>try\<close> (lines 131 to 170). The call and its response are appended
  twice, by lines 136 to 148 and again by lines 157 and 158. \<open>Inl\<close> is the exception that
  reaches the handler.
\<close>

definition tool_try :: "backend \<Rightarrow> tool_server \<Rightarrow> function_call \<Rightarrow> world \<Rightarrow> (exn + unit) \<times> world" where
  "tool_try gen tool fc w =
     (case call_tool tool fc w of
        (ToolRaise msg, w1) \<Rightarrow> (Inl (ToolError msg), w1)
      | (ToolReturn tool_result, w1) \<Rightarrow>
          (let w2 = emit (Out (ToolResult tool_result)) w1;
               w3 = append_content (Some (model_turn (function_call_part fc))) w2
           in case result_text tool_result of
                Inl x \<Rightarrow> (Inl x, w3)
              | Inr txt \<Rightarrow>
                  (let function_response_part =
                         from_function_response (name fc) (JObj [(''result'', JStr txt)]);
                       w4 = append_content (Some (user_turn function_response_part)) w3;
                       w5 = append_content (Some (model_turn (function_call_part fc))) w4;
                       w6 = append_content (Some (user_turn function_response_part)) w5
                   in case generate_with_retry gen default_max_retries w6 of
                        (Inl x, w7) \<Rightarrow> (Inl x, w7)
                      | (Inr None, w7) \<Rightarrow> (Inr (), w7)
                      | (Inr (Some final_response), w7) \<Rightarrow>
                          (case candidates final_response of
                             [] \<Rightarrow> (Inl IndexError, w7)
                           | cand # _ \<Rightarrow>
                               (let w8 = append_content (content cand) w7
                                in case content cand of
                                     None \<Rightarrow> (Inl AttributeError, w8)
                                   | Some ct \<Rightarrow> (Inr (), show_final_parts (parts ct) w8))))))"

text \<open>Lines 126 to 174: the request is shown, the call tried, any exception of it caught.\<close>

definition tool_branch :: "backend \<Rightarrow> tool_server \<Rightarrow> function_call \<Rightarrow> world \<Rightarrow> world" where
  "tool_branch gen tool fc w =
     (case tool_try gen tool fc (emit (Out (ToolRequested (name fc) (args fc))) w) of
        (Inl e, w1) \<Rightarrow> emit (Out (ToolFailed (name fc))) (emit (LogError (name fc) e) w1)
      | (Inr u, w1) \<Rightarrow> w1)"

text \<open>Lines 176 to 186.\<close>

definition text_branch :: "content \<Rightarrow> world \<Rightarrow> world" where
  "text_branch ct w =
     (let w1 = append_content (Some ct) w
      in if parts ct \<noteq> [] then show_parts (parts ct) w1 else emit (Out NoResponse) w1)"

text \<open>
  One pass of the loop body after the test for exit (lines 112 to 186). \<open>Inl\<close> is an
  exception that nothing catches: it ends \<^verbatim>\<open>run\<close>.
\<close>

definition run_turn :: "backend \<Rightarrow> tool_server \<Rightarrow> string \<Rightarrow> world \<Rightarrow> (exn + unit) \<times> world" where
  "run_turn gen tool user_input w =
     (case generate_with_retry gen default_max_retries
             (append_content (Some (user_turn (text_part user_input))) w) of
        (Inl x, w1) \<Rightarrow> (Inl x, w1)
      | (Inr None, w1) \<Rightarrow> (Inl AttributeError, w1)
      | (Inr (Some resp), w1) \<Rightarrow>
          (case candidates resp of
             [] \<Rightarrow> (Inl IndexError, w1)
           | cand # _ \<Rightarrow>
               (case content cand of
                  None \<Rightarrow> (Inl AttributeError, w1)
                | Some ct \<Rightarrow>
                    (case parts ct of
                       [] \<Rightarrow> (Inl IndexError, w1)
                     | p # _ \<Rightarrow>
                         (let w2 = emit (Out (ShowPart p)) w1
                          in case function_call p of
                               Some fc \<Rightarrow> (Inr (), tool_branch gen tool fc w2)
                             | None \<Rightarrow> (Inr (), text_branch ct w2))))))"

datatype exit_status = Exited | Crashed exn

text \<open>
  \<^verbatim>\<open>while True\<close> over the lines the user types; when there is no line left,
  \<^verbatim>\<open>input\<close> raises EOFError.
\<close>

fun run_loop :: "backend \<Rightarrow> tool_server \<Rightarrow> string list \<Rightarrow> world \<Rightarrow> exit_status \<times> world" where
  "run_loop gen tool [] w = (Crashed EOFError, w)"
| "run_loop gen tool (line # rest) w =
     (let user_input = py_strip line;
          w1 = emit (ReadInput line) w
      in if py_lower user_input = ''exit'' then (Exited, emit (Out Exiting) w1)
         else (case run_turn gen tool user_input w1 of
                 (Inl x, w2) \<Rightarrow> (Crashed x, w2)
               | (Inr u, w2) \<Rightarrow> run_loop gen tool rest w2))"

definition initial_world :: "string list \<Rightarrow> world" where
  "initial_world tool_names =
     \<lparr>contents = [],
      trace = [Out Banner, Out SessionInitialized, Out (AvailableTools tool_names)],
      gen_calls = 0, tool_calls = 0\<rparr>"

definition run :: "backend \<Rightarrow> tool_server \<Rightarrow> string list \<Rightarrow> string list \<Rightarrow> exit_status \<times> world" where
  "run gen tool tool_names inputs = run_loop gen tool inputs (initial_world tool_names)"

section \<open>Notions used to state the properties\<close>


text \<open>
  A turn of the user, and a conversation in which no turn of the user comes right after
  another one.
\<close>

definition is_user :: "content option \<Rightarrow> bool" where
  "is_user c = (case c of Some ct \<Rightarrow> role ct = Some ''user'' | None \<Rightarrow> False)"

fun no_adjacent_users :: "content option list \<Rightarrow> bool" where
  "no_adjacent_users (a # b # cs) = (\<not> (is_user a \<and> is_user b) \<and> no_adjacent_users (b # cs))"
| "no_adjacent_users _ = True"

text \<open>
  What holds of the state each time a line is read, as long as no tool call has failed:
  the memory has no two adjacent user turns and does not end with one, and so had every
  conversation given to the backend.
\<close>

definition turn_inv :: "world \<Rightarrow> bool" where
  "turn_inv w \<longleftrightarrow> no_adjacent_users (contents w)
      \<and> (contents w \<noteq> [] \<longrightarrow> \<not> is_user (last (contents w)))
      \<and> (\<forall>cs\<in>set (generations (trace w)). no_adjacent_users cs)"

section \<open>Example environments\<close>

definition quota_body :: json where
  "quota_body =
     JObj [(''error'',
       JObj [(''code'', JNum 429),
             (''status'', JStr ''RESOURCE_EXHAUSTED''),
             (''details'',
               JArr [JObj [(''@type'', JStr ''type.googleapis.com/google.rpc.Help'')],
                     JObj [(''@type'', JStr ''type.googleapis.com/google.rpc.RetryInfo''),
                           (''retryDelay'', JStr ''5s'')]])])]"




definition quota_then_unparsable_backend :: backend where
  "quota_then_unparsable_backend n cs =
     (if n = 0 then GenRaise (ClientError 429 (Some quota_body))
      else GenRaise (ClientError 429 None))"

definition weather_call :: function_call where
  "weather_call = \<lparr>name = ''get_weather'', args = JObj [(''city'', JStr ''Paris'')]\<rparr>"

definition weather_request :: gen_response where
  "weather_request =
     \<lparr>candidates = [\<lparr>content = Some (model_turn (function_call_part weather_call))\<rparr>]\<rparr>"

definition weather_answer :: gen_response where
  "weather_answer =
     \<lparr>candidates = [\<lparr>content = Some (model_turn (text_part ''It is 22C and sunny in Paris.''))\<rparr>]\<rparr>"

definition weather_backend :: backend where
  "weather_backend n cs = (if n = 0 then GenOk weather_request else GenOk weather_answer)"

definition weather_result :: call_tool_result where
  "weather_result = \<lparr>result_content = [TextContent ''22C, sunny''], isError = False\<rparr>"

definition weather_tool :: tool_server where
  "weather_tool n nm a = ToolReturn weather_result"

definition failing_tool :: tool_server where
  "failing_tool n nm a = ToolRaise ''connection closed''"

definition text_then_call :: content where
  "text_then_call =
     \<lparr>role = Some ''model'', parts = [text_part ''Let me check.'', function_call_part weather_call]\<rparr>"

definition text_then_call_backend :: backend where
  "text_then_call_backend n cs = GenOk \<lparr>candidates = [\<lparr>content = Some text_then_call\<rparr>]\<rparr>"


section \<open>Properties of generate\_with\_retry\<close>

declare retry_loop.simps [simp del]


lemma trace_emit: "trace (emit ev w) = trace w @ [ev]"
  and contents_emit: "contents (emit ev w) = contents w"
  and gen_calls_emit: "gen_calls (emit ev w) = gen_calls w"
  and tool_calls_emit: "tool_calls (emit ev w) = tool_calls w"
  by (simp_all add: emit_def)

lemma sleeps_append: "sleeps (xs @ ys) = sleeps xs @ sleeps ys"
  by (induction xs rule: sleeps.induct) simp_all

lemma generations_append: "generations (xs @ ys) = generations xs @ generations ys"
  by (induction xs rule: generations.induct) simp_all

lemma tool_invocations_append: "tool_invocations (xs @ ys) = tool_invocations xs @ tool_invocations ys"
  by (induction xs rule: tool_invocations.induct) simp_all


lemma note_delay_error_facts:
  "contents (note_delay_error ed w) = contents w"
  "gen_calls (note_delay_error ed w) = gen_calls w"
  "tool_calls (note_delay_error ed w) = tool_calls w"
  "sleeps (trace (note_delay_error ed w)) = sleeps (trace w)"
  "generations (trace (note_delay_error ed w)) = generations (trace w)"
  "tool_invocations (trace (note_delay_error ed w)) = tool_invocations (trace w)"
  by (simp_all add: note_delay_error_def emit_def sleeps_append generations_append
      tool_invocations_append split: sum.splits)

lemma on_client_error_rate_limited:
  assumes "error_status ed = Inr st" and "is_rate_limit_status st"
  shows "on_client_error m a code (Some ed) w =
     (if a < m - 1
      then (Inr (), emit (Sleep (retry_delay ed))
                      (emit (Out (QuotaRetry (retry_delay ed) (a + 1) m)) (note_delay_error ed w)))
      else (Inl (ClientError code (Some ed)), emit (Out MaxRetriesHit) (note_delay_error ed w)))"
  using assms by (simp add: on_client_error_def Let_def)

lemma retry_loop_rate_limited_step:
  assumes "a < m - 1"
    and "gen (gen_calls w) (contents w) = GenRaise (ClientError code (Some ed))"
    and "error_status ed = Inr st" and "is_rate_limit_status st"
  shows "\<exists>w'. retry_loop gen m a w = retry_loop gen m (a + 1) w'
          \<and> contents w' = contents w \<and> gen_calls w' = Suc (gen_calls w)
          \<and> tool_calls w' = tool_calls w
          \<and> generations (trace w') = generations (trace w) @ [contents w]
          \<and> sleeps (trace w') = sleeps (trace w) @ [retry_delay ed]
          \<and> tool_invocations (trace w') = tool_invocations (trace w)"
proof -
  from assms(1) have lt: "a < m" by simp
  show ?thesis
    using assms lt
    apply (subst retry_loop.simps)
    apply (simp add: call_generate_def on_client_error_rate_limited)
    apply (rule exI, rule conjI, rule refl)
    apply (simp add: trace_emit contents_emit
          gen_calls_emit tool_calls_emit note_delay_error_facts sleeps_append generations_append
          tool_invocations_append)
    done
qed

lemma retry_loop_rate_limited_prefix:
  assumes "a + int k < m"
    and "\<forall>i<k. \<exists>st. gen (gen_calls w + i) (contents w) = GenRaise (ClientError (code i) (Some (body i)))
              \<and> error_status (body i) = Inr st \<and> is_rate_limit_status st"
  shows "\<exists>w'. retry_loop gen m a w = retry_loop gen m (a + int k) w'
          \<and> contents w' = contents w \<and> gen_calls w' = gen_calls w + k
          \<and> tool_calls w' = tool_calls w
          \<and> generations (trace w') = generations (trace w) @ replicate k (contents w)
          \<and> sleeps (trace w') = sleeps (trace w) @ map (\<lambda>i. retry_delay (body i)) [0..<k]
          \<and> tool_invocations (trace w') = tool_invocations (trace w)"
  using assms
proof (induction k arbitrary: a w code body)
  case 0
  show ?case by (rule exI [where x = w]) simp
next
  case (Suc k)
  from Suc.prems(2) obtain st where
    g0: "gen (gen_calls w) (contents w) = GenRaise (ClientError (code 0) (Some (body 0)))"
    and st0: "error_status (body 0) = Inr st" "is_rate_limit_status st"
    by fastforce
  from Suc.prems(1) have a_lt: "a < m - 1" by simp
  from retry_loop_rate_limited_step [where gen = gen and w = w, OF a_lt g0 st0] obtain w1 where
    w1: "retry_loop gen m a w = retry_loop gen m (a + 1) w1"
      "contents w1 = contents w" "gen_calls w1 = Suc (gen_calls w)"
      "tool_calls w1 = tool_calls w"
      "generations (trace w1) = generations (trace w) @ [contents w]"
      "sleeps (trace w1) = sleeps (trace w) @ [retry_delay (body 0)]"
      "tool_invocations (trace w1) = tool_invocations (trace w)"
    by blast
  have rest: "\<forall>i<k. \<exists>st. gen (gen_calls w1 + i) (contents w1)
        = GenRaise (ClientError ((code \<circ> Suc) i) (Some ((body \<circ> Suc) i)))
      \<and> error_status ((body \<circ> Suc) i) = Inr st \<and> is_rate_limit_status st"
    using Suc.prems(2) w1(2,3) by (auto dest: spec [where x = "Suc _"])
  have bound: "(a + 1) + int k < m" using Suc.prems(1) by simp
  from Suc.IH [of "a + 1" w1 "code \<circ> Suc" "body \<circ> Suc", OF bound rest] obtain w' where
    w': "retry_loop gen m (a + 1) w1 = retry_loop gen m (a + 1 + int k) w'"
      "contents w' = contents w1" "gen_calls w' = gen_calls w1 + k"
      "tool_calls w' = tool_calls w1"
      "generations (trace w') = generations (trace w1) @ replicate k (contents w1)"
      "sleeps (trace w') = sleeps (trace w1) @ map (\<lambda>i. retry_delay ((body \<circ> Suc) i)) [0..<k]"
      "tool_invocations (trace w') = tool_invocations (trace w1)"
    by blast
  have m: "map (\<lambda>i. retry_delay (body i)) [0..<Suc k]
      = retry_delay (body 0) # map (\<lambda>i. retry_delay ((body \<circ> Suc) i)) [0..<k]"
    by (simp add: upt_conv_Cons map_Suc_upt [symmetric] del: upt_Suc)
  have r: "replicate (Suc k) (contents w) = [contents w] @ replicate k (contents w)"
    by simp
  show ?case
    apply (rule exI [where x = w'])
    using w1 w' m r by (simp add: add.assoc del: upt_Suc replicate_Suc)
qed

lemma call_generate_facts:
  "fst (call_generate gen w) = gen (gen_calls w) (contents w)"
  "contents (snd (call_generate gen w)) = contents w"
  "gen_calls (snd (call_generate gen w)) = Suc (gen_calls w)"
  "tool_calls (snd (call_generate gen w)) = tool_calls w"
  "trace (snd (call_generate gen w)) = trace w @ [Generate (contents w)]"
  by (simp_all add: call_generate_def emit_def)

lemma retry_loop_success:
  assumes "a < m" and "gen (gen_calls w) (contents w) = GenOk r"
  shows "retry_loop gen m a w = (Inr (Some r), snd (call_generate gen w))"
  using assms by (subst retry_loop.simps) (simp add: call_generate_def)

lemma retry_loop_other_exn:
  assumes "a < m" and "gen (gen_calls w) (contents w) = GenRaise e"
    and "\<forall>code body. e \<noteq> ClientError code body"
  shows "retry_loop gen m a w = (Inl e, snd (call_generate gen w))"
  using assms by (subst retry_loop.simps) (cases e; simp add: call_generate_def)

lemma retry_loop_client_error:
  assumes "a < m" and "gen (gen_calls w) (contents w) = GenRaise (ClientError code body)"
  shows "retry_loop gen m a w =
     (case on_client_error m a code body (snd (call_generate gen w)) of
        (Inl x, w2) \<Rightarrow> (Inl x, w2)
      | (Inr u, w2) \<Rightarrow> retry_loop gen m (a + 1) w2)"
  using assms by (subst retry_loop.simps) (simp add: call_generate_def)

lemma on_client_error_unparsable:
  "on_client_error m a code None w = (Inl (ClientError code None), emit (Out FailedToParseResponse) w)"
  by (simp add: on_client_error_def)

lemma on_client_error_bad_shape:
  "error_status ed = Inl x \<Longrightarrow> on_client_error m a code (Some ed) w = (Inl x, w)"
  by (simp add: on_client_error_def)

lemma on_client_error_other_status:
  "error_status ed = Inr st \<Longrightarrow> \<not> is_rate_limit_status st \<Longrightarrow>
   on_client_error m a code (Some ed) w
     = (Inl (ClientError code (Some ed)), emit (Out (UnexpectedError ed)) w)"
  by (simp add: on_client_error_def)

lemma is_rate_limit_status_iff:
  "is_rate_limit_status st \<longleftrightarrow>
     st \<in> {JStr ''RESOURCE_EXHAUSTED'', JStr ''429 RESOURCE_EXHAUSTED'', JStr ''Too Many Requests''}"
  by (auto simp: is_rate_limit_status_def)


lemmas strip_defs = py_int_def py_strip_chars_def py_strip_def strip_while_def is_space_def
  is_digit_def digit_val_def int_max_str_digits_def

lemmas delay_defs = retry_delay_def retry_delay_try_def error_field_def retry_info_type_def
  parse_retry_delay_def

lemma quota_body_status: "error_status quota_body = Inr (JStr ''RESOURCE_EXHAUSTED'')"
  by (simp add: quota_body_def error_status_def error_field_def)

lemma quota_body_delay: "retry_delay quota_body = 5"
  by (simp add: quota_body_def delay_defs strip_defs)






text \<open>
  Claim C10. A client error whose body does not parse as JSON is raised again at once,
  whatever its HTTP code (429 included): no sleep and no call follow it. The handler lets
  the loop go on only for a body that parsed.
\<close>

theorem unparsable_body_not_retried:
  assumes "int k < max_retries"
    and "\<forall>i<k. \<exists>st. gen (gen_calls w + i) (contents w)
                      = GenRaise (ClientError (code i) (Some (body i)))
                  \<and> error_status (body i) = Inr st
                  \<and> st \<in> {JStr ''RESOURCE_EXHAUSTED'', JStr ''429 RESOURCE_EXHAUSTED'',
                          JStr ''Too Many Requests''}"
    and "gen (gen_calls w + k) (contents w) = GenRaise (ClientError c None)"
  shows "fst (generate_with_retry gen max_retries w) = Inl (ClientError c None)
       \<and> generations (trace (snd (generate_with_retry gen max_retries w)))
            = generations (trace w) @ replicate (Suc k) (contents w)
       \<and> sleeps (trace (snd (generate_with_retry gen max_retries w)))
            = sleeps (trace w) @ map (\<lambda>i. retry_delay (body i)) [0..<k]
       \<and> (\<forall>m a c' b w0. fst (on_client_error m a c' b w0) = Inr () \<longrightarrow> b \<noteq> None)"
proof -
  have bound: "0 + int k < max_retries" using assms(1) by simp
  have pre: "\<forall>i<k. \<exists>st. gen (gen_calls w + i) (contents w)
        = GenRaise (ClientError (code i) (Some (body i)))
      \<and> error_status (body i) = Inr st \<and> is_rate_limit_status st"
    using assms(2) by (simp add: is_rate_limit_status_iff)
  from retry_loop_rate_limited_prefix [where gen = gen and w = w and code = code and body = body,
      OF bound pre]
  obtain w' where w':
    "retry_loop gen max_retries 0 w = retry_loop gen max_retries (int k) w'"
    "contents w' = contents w" "gen_calls w' = gen_calls w + k"
    "generations (trace w') = generations (trace w) @ replicate k (contents w)"
    "sleeps (trace w') = sleeps (trace w) @ map (\<lambda>i. retry_delay (body i)) [0..<k]"
    by auto
  have g: "gen (gen_calls w') (contents w') = GenRaise (ClientError c None)"
    using assms(3) w'(2,3) by simp
  have final: "retry_loop gen max_retries (int k) w'
      = (Inl (ClientError c None), emit (Out FailedToParseResponse) (snd (call_generate gen w')))"
    by (simp add: retry_loop_client_error [where gen = gen and w = w', OF assms(1) g]
        on_client_error_unparsable)
  have rep: "replicate k (contents w) @ [contents w] = replicate (Suc k) (contents w)"
    by (simp add: replicate_append_same)
  have reach: "\<forall>m a c' b w0. fst (on_client_error m a c' b w0) = Inr () \<longrightarrow> b \<noteq> None"
  proof (intro allI impI notI)
    fix m a c' b w0
    assume "fst (on_client_error m a c' b w0) = Inr ()" and "b = None"
    then show False by (simp add: on_client_error_unparsable)
  qed
  from rep reach show ?thesis
    by (simp add: generate_with_retry_def w' final trace_emit generations_append sleeps_append
        call_generate_facts del: replicate_Suc)
qed

theorem unparsable_body_not_retried_witness:
  "fst (generate_with_retry quota_then_unparsable_backend default_max_retries (initial_world []))
     = Inl (ClientError 429 None)
   \<and> generations (trace (snd (generate_with_retry quota_then_unparsable_backend
         default_max_retries (initial_world [])))) = [[], []]
   \<and> sleeps (trace (snd (generate_with_retry quota_then_unparsable_backend default_max_retries
         (initial_world [])))) = [5]
   \<and> fst (on_client_error 3 0 429 (Some quota_body) (initial_world [])) = Inr ()
   \<and> Some quota_body \<noteq> None"
proof -
  note th = unparsable_body_not_retried [of 1 default_max_retries quota_then_unparsable_backend
      "initial_world []" "\<lambda>i. 429" "\<lambda>i. quota_body" 429]
  have run: "fst (generate_with_retry quota_then_unparsable_backend default_max_retries
         (initial_world [])) = Inl (ClientError 429 None)
   \<and> generations (trace (snd (generate_with_retry quota_then_unparsable_backend
         default_max_retries (initial_world [])))) = [[], []]
   \<and> sleeps (trace (snd (generate_with_retry quota_then_unparsable_backend default_max_retries
         (initial_world [])))) = [5]"
    using th
    by (simp add: default_max_retries_def quota_then_unparsable_backend_def quota_body_status
        quota_body_delay initial_world_def)
  have goes_on: "fst (on_client_error 3 0 429 (Some quota_body) (initial_world [])) = Inr ()"
    by (simp add: on_client_error_rate_limited [OF quota_body_status] is_rate_limit_status_def)
  have "fst (on_client_error 3 0 429 (Some quota_body) (initial_world [])) = Inr ()
      \<longrightarrow> Some quota_body \<noteq> None"
    using th
    by (simp add: default_max_retries_def quota_then_unparsable_backend_def quota_body_status)
  with goes_on have "Some quota_body \<noteq> None" by (rule mp [rotated])
  with run goes_on show ?thesis by simp
qed

section \<open>The delay before a retry\<close>





















section \<open>What each step leaves unchanged\<close>

lemma on_client_error_frame:
  assumes "on_client_error m a code body w = (res, w')"
  shows "contents w' = contents w \<and> tool_calls w' = tool_calls w \<and> gen_calls w' = gen_calls w
       \<and> prefix (trace w) (trace w')
       \<and> tool_invocations (trace w') = tool_invocations (trace w)
       \<and> generations (trace w') = generations (trace w)"
proof (cases body)
  case None
  with assms show ?thesis
    by (auto simp: on_client_error_unparsable emit_def tool_invocations_append generations_append)
next
  case (Some ed)
  show ?thesis
  proof (cases "error_status ed")
    case (Inl x)
    with assms Some show ?thesis by (auto simp: on_client_error_bad_shape)
  next
    case (Inr st)
    have nd: "prefix (trace w) (trace (note_delay_error ed w))"
      by (simp add: note_delay_error_def emit_def split: sum.splits)
    show ?thesis
    proof (cases "is_rate_limit_status st")
      case True
      from assms [unfolded Some on_client_error_rate_limited [OF Inr True]] nd show ?thesis
        by (auto simp: trace_emit contents_emit tool_calls_emit gen_calls_emit
            note_delay_error_facts tool_invocations_append generations_append
            intro: prefix_order.trans split: if_splits)
    next
      case False
      from assms [unfolded Some on_client_error_other_status [OF Inr False]] show ?thesis
        by (auto simp: emit_def tool_invocations_append generations_append)
    qed
  qed
qed

lemma retry_loop_frame:
  assumes "retry_loop gen m a w = (res, w')"
  shows "contents w' = contents w \<and> tool_calls w' = tool_calls w
       \<and> prefix (trace w) (trace w')
       \<and> tool_invocations (trace w') = tool_invocations (trace w)
       \<and> (\<exists>j. generations (trace w') = generations (trace w) @ replicate j (contents w)
               \<and> (a < m \<longrightarrow> 0 < j))
       \<and> (a < m \<longrightarrow> res \<noteq> Inr None)"
  using assms
proof (induction gen m a w arbitrary: res w' rule: retry_loop.induct)
  case (1 gen m a w)
  show ?case
  proof (cases "a < m")
    case False
    with "1.prems" show ?thesis
      by (subst (asm) retry_loop.simps) (auto intro: exI [where x = 0])
  next
    case True
    let ?w1 = "snd (call_generate gen w)"
    have cg: "call_generate gen w = (gen (gen_calls w) (contents w), ?w1)"
      by (simp add: call_generate_def)
    have one: "generations (trace ?w1) = generations (trace w) @ replicate 1 (contents w)"
      by (simp add: call_generate_facts generations_append)
    have pre1: "prefix (trace w) (trace ?w1)" by (simp add: call_generate_facts)
    have ti1: "tool_invocations (trace ?w1) = tool_invocations (trace w)"
      by (simp add: call_generate_facts tool_invocations_append)
    show ?thesis
    proof (cases "gen (gen_calls w) (contents w)")
      case (GenOk r)
      from "1.prems" have "res = Inr (Some r)" "w' = ?w1"
        by (simp_all add: retry_loop_success [where gen = gen and w = w, OF True GenOk])
      with True one pre1 ti1 show ?thesis
        by (auto simp: call_generate_facts intro: exI [where x = 1])
    next
      case (GenRaise e)
      show ?thesis
      proof (cases "\<exists>code body. e = ClientError code body")
        case False
        then have "\<forall>code body. e \<noteq> ClientError code body" by simp
        from "1.prems" retry_loop_other_exn [where gen = gen and w = w, OF True GenRaise this]
        have "res = Inl e" "w' = ?w1" by simp_all
        with True one pre1 ti1 show ?thesis
          by (auto simp: call_generate_facts intro: exI [where x = 1])
      next
        case ex: True
        then obtain code body where e: "e = ClientError code body" by auto
        note step = retry_loop_client_error [where gen = gen and w = w, OF True GenRaise [unfolded e]]
        obtain r2 w2 where oce: "on_client_error m a code body ?w1 = (r2, w2)"
          by (cases "on_client_error m a code body ?w1") auto
        note fr = on_client_error_frame [OF oce]
        show ?thesis
        proof (cases r2)
          case (Inl x)
          with "1.prems" step oce have "res = Inl x" "w' = w2" by simp_all
          with True one pre1 ti1 fr show ?thesis
            by (auto simp: call_generate_facts intro: exI [where x = 1] dest: append_prefixD)
        next
          case (Inr u)
          with "1.prems" step oce have rec: "retry_loop gen m (a + 1) w2 = (res, w')" by simp
          from "1.IH" [OF True cg [symmetric] GenRaise e oce [symmetric] Inr rec]
          obtain j where ih:
            "contents w' = contents w2" "tool_calls w' = tool_calls w2"
            "prefix (trace w2) (trace w')"
            "tool_invocations (trace w') = tool_invocations (trace w2)"
            "generations (trace w') = generations (trace w2) @ replicate j (contents w2)"
            "a + 1 < m \<longrightarrow> res \<noteq> Inr None"
            by auto
          have last: "\<not> a + 1 < m \<Longrightarrow> False"
            using Inr oce by (cases body) (auto simp: on_client_error_def Let_def split: sum.splits if_splits)
          have g: "generations (trace w') = generations (trace w) @ replicate (Suc j) (contents w)"
            using ih(5) fr one by (simp add: call_generate_facts replicate_append_same)
          have "prefix (trace w) (trace w2)"
            using fr by (auto simp: call_generate_facts dest: append_prefixD)
          from this ih(3) have pw: "prefix (trace w) (trace w')" by (rule prefix_order.trans)
          have c: "contents w' = contents w" "tool_calls w' = tool_calls w"
            "tool_invocations (trace w') = tool_invocations (trace w)"
            using ih(1,2,4) fr ti1 by (simp_all add: call_generate_facts)
          have ex: "\<exists>j'. generations (trace w') = generations (trace w) @ replicate j' (contents w)
              \<and> (a < m \<longrightarrow> 0 < j')"
            using g by (intro exI [where x = "Suc j"]) simp
          have rn: "a < m \<longrightarrow> res \<noteq> Inr None" using ih(6) last by auto
          from c pw ex rn show ?thesis by blast
        qed
      qed
    qed
  qed
qed

lemma generate_with_retry_frame:
  assumes "generate_with_retry gen default_max_retries w = (res, w')"
  shows "contents w' = contents w" and "tool_calls w' = tool_calls w"
    and "prefix (trace w) (trace w')"
    and "tool_invocations (trace w') = tool_invocations (trace w)"
    and "\<exists>j. generations (trace w') = generations (trace w) @ replicate (Suc j) (contents w)"
    and "res \<noteq> Inr None"
proof -
  note f = retry_loop_frame [OF assms [unfolded generate_with_retry_def]]
  from f show "contents w' = contents w" "tool_calls w' = tool_calls w"
    "prefix (trace w) (trace w')" "tool_invocations (trace w') = tool_invocations (trace w)"
    by simp_all
  from f show "res \<noteq> Inr None" by (simp add: default_max_retries_def)
  from f obtain j where "generations (trace w') = generations (trace w) @ replicate j (contents w)"
    "0 < j" by (auto simp: default_max_retries_def)
  then show "\<exists>j. generations (trace w') = generations (trace w) @ replicate (Suc j) (contents w)"
    by (cases j) auto
qed

lemma append_content_facts:
  "contents (append_content c w) = contents w @ [c]"
  "trace (append_content c w) = trace w"
  "gen_calls (append_content c w) = gen_calls w"
  "tool_calls (append_content c w) = tool_calls w"
  by (simp_all add: append_content_def)

lemma show_final_parts_frame:
  "contents (show_final_parts ps w) = contents w"
  "tool_calls (show_final_parts ps w) = tool_calls w"
  "gen_calls (show_final_parts ps w) = gen_calls w"
  "generations (trace (show_final_parts ps w)) = generations (trace w)"
  "tool_invocations (trace (show_final_parts ps w)) = tool_invocations (trace w)"
  by (induction ps arbitrary: w)
     (simp_all add: emit_def generations_append tool_invocations_append split: option.splits)

lemma show_final_parts_prefix: "prefix (trace w) (trace (show_final_parts ps w))"
proof (induction ps arbitrary: w)
  case Nil
  show ?case by simp
next
  case (Cons p ps)
  let ?w1 = "case part_text p of
      Some t \<Rightarrow> if t \<noteq> [] then emit (Out (Assistant t)) w else w | None \<Rightarrow> w"
  have "prefix (trace w) (trace ?w1)"
    by (simp add: trace_emit split: option.splits)
  from this Cons [of ?w1] show ?case
    unfolding show_final_parts.simps by (rule prefix_order.trans)
qed

lemma show_part_frame:
  "contents (show_part p w) = contents w"
  "tool_calls (show_part p w) = tool_calls w"
  "gen_calls (show_part p w) = gen_calls w"
  "prefix (trace w) (trace (show_part p w))"
  "generations (trace (show_part p w)) = generations (trace w)"
  "tool_invocations (trace (show_part p w)) = tool_invocations (trace w)"
  by (simp_all add: show_part_def show_request_def emit_def generations_append
      tool_invocations_append split: option.splits)

lemma show_parts_frame:
  "contents (show_parts ps w) = contents w"
  "tool_calls (show_parts ps w) = tool_calls w"
  "gen_calls (show_parts ps w) = gen_calls w"
  "generations (trace (show_parts ps w)) = generations (trace w)"
  "tool_invocations (trace (show_parts ps w)) = tool_invocations (trace w)"
  by (induction ps arbitrary: w) (simp_all add: show_part_frame)

lemma show_parts_prefix: "prefix (trace w) (trace (show_parts ps w))"
proof (induction ps arbitrary: w)
  case Nil
  show ?case by simp
next
  case (Cons p ps)
  from show_part_frame(4) [of w p] Cons [of "show_part p w"] show ?case
    by simp
qed

lemma prefix_set_mono: "prefix xs ys \<Longrightarrow> x \<in> set xs \<Longrightarrow> x \<in> set ys"
  by (auto simp: prefix_def)

lemma show_parts_request:
  assumes "q \<in> set ps" and "function_call q = Some fc"
    and "part_text q = None \<or> part_text q = Some []"
  shows "Out (ToolRequested (name fc) (args fc)) \<in> set (trace (show_parts ps w))"
  using assms(1)
proof (induction ps arbitrary: w)
  case Nil
  then show ?case by simp
next
  case (Cons p ps)
  show ?case
  proof (cases "q = p")
    case True
    with assms(2,3) have "Out (ToolRequested (name fc) (args fc)) \<in> set (trace (show_part p w))"
      by (auto simp: show_part_def show_request_def emit_def)
    with show_parts_prefix [of "show_part p w" ps] show ?thesis
      by (auto intro: prefix_set_mono)
  next
    case False
    with Cons show ?thesis by simp
  qed
qed

lemma text_branch_frame:
  "contents (text_branch ct w) = contents w @ [Some ct]"
  "tool_calls (text_branch ct w) = tool_calls w"
  "prefix (trace w) (trace (text_branch ct w))"
  "generations (trace (text_branch ct w)) = generations (trace w)"
  "tool_invocations (trace (text_branch ct w)) = tool_invocations (trace w)"
proof -
  have "prefix (trace (append_content (Some ct) w)) (trace (show_parts (parts ct) (append_content (Some ct) w)))"
    by (rule show_parts_prefix)
  then show "prefix (trace w) (trace (text_branch ct w))"
    by (simp add: text_branch_def Let_def append_content_facts trace_emit)
qed (simp_all add: text_branch_def Let_def show_parts_frame append_content_facts emit_def
      generations_append tool_invocations_append)

lemma tool_try_raise:
  assumes "tool (tool_calls w) (name fc) (args fc) = ToolRaise msg"
  shows "tool_try gen tool fc w
      = (Inl (ToolError msg),
         w\<lparr>trace := trace w @ [CallTool (name fc) (args fc)], tool_calls := Suc (tool_calls w)\<rparr>)"
  using assms by (simp add: tool_try_def call_tool_def emit_def)

text \<open>The state in which the second generation is called after a tool has answered.\<close>

lemma after_tool_result:
  "append_content d (append_content c (append_content b (append_content a
      (emit e2 ((emit e1 w)\<lparr>tool_calls := Suc (tool_calls w)\<rparr>)))))
   = w\<lparr>contents := contents w @ [a, b, c, d], trace := trace w @ [e1, e2],
        tool_calls := Suc (tool_calls w)\<rparr>"
  by (simp add: append_content_def emit_def)

lemma tool_try_return:
  assumes "tool (tool_calls w) (name fc) (args fc) = ToolReturn tr"
    and "result_text tr = Inr txt"
    and "generate_with_retry gen default_max_retries
        (w\<lparr>contents := contents w @
              [Some (model_turn (function_call_part fc)),
               Some (user_turn (from_function_response (name fc) (JObj [(''result'', JStr txt)]))),
               Some (model_turn (function_call_part fc)),
               Some (user_turn (from_function_response (name fc) (JObj [(''result'', JStr txt)])))],
            trace := trace w @ [CallTool (name fc) (args fc), Out (ToolResult tr)],
            tool_calls := Suc (tool_calls w)\<rparr>) = (res, w7)"
  shows "tool_try gen tool fc w =
     (case res of
        Inl x \<Rightarrow> (Inl x, w7)
      | Inr None \<Rightarrow> (Inr (), w7)
      | Inr (Some final_response) \<Rightarrow>
          (case candidates final_response of
             [] \<Rightarrow> (Inl IndexError, w7)
           | cand # _ \<Rightarrow>
               (case content cand of
                  None \<Rightarrow> (Inl AttributeError, append_content None w7)
                | Some ct \<Rightarrow> (Inr (), show_final_parts (parts ct) (append_content (Some ct) w7)))))"
  using assms
  by (simp add: tool_try_def call_tool_def Let_def after_tool_result
      split: sum.splits option.splits list.splits)

lemma tool_try_no_text:
  assumes "tool (tool_calls w) (name fc) (args fc) = ToolReturn tr"
    and "result_text tr = Inl x"
  shows "tool_try gen tool fc w
      = (Inl x, w\<lparr>contents := contents w @ [Some (model_turn (function_call_part fc))],
                  trace := trace w @ [CallTool (name fc) (args fc), Out (ToolResult tr)],
                  tool_calls := Suc (tool_calls w)\<rparr>)"
  using assms by (simp add: tool_try_def call_tool_def Let_def append_content_def emit_def)

lemma retry_loop_first_event:
  assumes "a < m"
  shows "prefix (trace w @ [Generate (contents w)]) (trace (snd (retry_loop gen m a w)))"
proof -
  let ?w1 = "snd (call_generate gen w)"
  have t1: "trace ?w1 = trace w @ [Generate (contents w)]" by (simp add: call_generate_facts)
  show ?thesis
  proof (cases "gen (gen_calls w) (contents w)")
    case (GenOk r)
    show ?thesis
      by (simp add: retry_loop_success [where gen = gen and w = w, OF assms GenOk] t1)
  next
    case (GenRaise e)
    show ?thesis
    proof (cases "\<exists>code body. e = ClientError code body")
      case False
      then have "\<forall>code body. e \<noteq> ClientError code body" by simp
      from retry_loop_other_exn [where gen = gen and w = w, OF assms GenRaise this]
      show ?thesis by (simp add: t1)
    next
      case True
      then obtain code body where e: "e = ClientError code body" by auto
      note step = retry_loop_client_error [where gen = gen and w = w, OF assms GenRaise [unfolded e]]
      obtain r2 w2 where oce: "on_client_error m a code body ?w1 = (r2, w2)"
        by (cases "on_client_error m a code body ?w1") auto
      from on_client_error_frame [OF oce] have p2: "prefix (trace ?w1) (trace w2)" by simp
      show ?thesis
      proof (cases r2)
        case (Inl x)
        with step oce p2 show ?thesis by (simp add: t1)
      next
        case (Inr u)
        obtain r3 w3 where rec: "retry_loop gen m (a + 1) w2 = (r3, w3)"
          by (cases "retry_loop gen m (a + 1) w2") auto
        from retry_loop_frame [OF rec] have "prefix (trace w2) (trace w3)" by simp
        with p2 have "prefix (trace ?w1) (trace w3)" by (rule prefix_order.trans)
        with Inr step oce rec show ?thesis by (simp add: t1)
      qed
    qed
  qed
qed

lemma tool_try_prefix: "prefix (trace w) (trace (snd (tool_try gen tool fc w)))"
proof (cases "tool (tool_calls w) (name fc) (args fc)")
  case (ToolRaise msg)
  show ?thesis by (simp add: tool_try_raise [where tool = tool and w = w and fc = fc, OF ToolRaise])
next
  case (ToolReturn tr)
  show ?thesis
  proof (cases "result_text tr")
    case (Inl x)
    show ?thesis by (simp add: tool_try_no_text [where tool = tool and w = w and fc = fc, OF ToolReturn Inl])
  next
    case (Inr rt)
    let ?w6 = "w\<lparr>contents := contents w @
              [Some (model_turn (function_call_part fc)),
               Some (user_turn (from_function_response (name fc) (JObj [(''result'', JStr rt)]))),
               Some (model_turn (function_call_part fc)),
               Some (user_turn (from_function_response (name fc) (JObj [(''result'', JStr rt)])))],
            trace := trace w @ [CallTool (name fc) (args fc), Out (ToolResult tr)],
            tool_calls := Suc (tool_calls w)\<rparr>"
    obtain res w7 where g: "generate_with_retry gen default_max_retries ?w6 = (res, w7)"
      by (cases "generate_with_retry gen default_max_retries ?w6") auto
    from generate_with_retry_frame(3) [OF g] have p7: "prefix (trace w) (trace w7)"
      by (auto dest: append_prefixD)
    have "\<And>ps c. prefix (trace w) (trace (show_final_parts ps (append_content c w7)))"
      using p7 show_final_parts_prefix prefix_order.trans
      by (metis append_content_facts(2))
    with p7 show ?thesis
      by (simp add: tool_try_return [where tool = tool and w = w and fc = fc and gen = gen, OF ToolReturn Inr g] append_content_facts
          split: sum.splits option.splits list.splits)
  qed
qed

lemma tool_branch_prefix: "prefix (trace w) (trace (tool_branch gen tool fc w))"
proof -
  let ?w0 = "emit (Out (ToolRequested (name fc) (args fc))) w"
  obtain r w1 where t: "tool_try gen tool fc ?w0 = (r, w1)"
    by (cases "tool_try gen tool fc ?w0") auto
  from tool_try_prefix [of ?w0 gen tool fc] t have "prefix (trace ?w0) (trace w1)" by simp
  then have "prefix (trace w) (trace w1)" by (auto simp: trace_emit dest: append_prefixD)
  then have "prefix (trace w) (trace w1 @ [LogError (name fc) e, Out (ToolFailed (name fc))])" for e
    by (rule prefix_order.trans) simp
  with \<open>prefix (trace w) (trace w1)\<close> show ?thesis
    by (simp add: tool_branch_def t trace_emit split: sum.splits)
qed

lemma run_turn_unfold:
  assumes "generate_with_retry gen default_max_retries
             (append_content (Some (user_turn (text_part user_input))) w) = (Inr (Some resp), w1)"
    and "candidates resp = cand # cands" and "content cand = Some ct" and "parts ct = p # ps"
  shows "run_turn gen tool user_input w =
     (Inr (), case function_call p of
                Some fc \<Rightarrow> tool_branch gen tool fc (emit (Out (ShowPart p)) w1)
              | None \<Rightarrow> text_branch ct (emit (Out (ShowPart p)) w1))"
  using assms by (simp add: run_turn_def Let_def split: option.splits)

lemma run_turn_first_event:
  "prefix (trace w @ [Generate (contents w @ [Some (user_turn (text_part user_input))])])
     (trace (snd (run_turn gen tool user_input w)))"
proof -
  let ?w0 = "append_content (Some (user_turn (text_part user_input))) w"
  obtain res w1 where g: "generate_with_retry gen default_max_retries ?w0 = (res, w1)"
    by (cases "generate_with_retry gen default_max_retries ?w0") auto
  have "prefix (trace ?w0 @ [Generate (contents ?w0)]) (trace w1)"
    using retry_loop_first_event [of 0 default_max_retries ?w0 gen] g
    by (simp add: generate_with_retry_def default_max_retries_def)
  then have p1: "prefix (trace w @ [Generate (contents w @ [Some (user_turn (text_part user_input))])])
      (trace w1)" (is "prefix ?t _")
    by (simp add: append_content_facts)
  have ext: "prefix ?t (trace w')" if "prefix (trace w1) (trace w')" for w' :: world
    using p1 that by (rule prefix_order.trans)
  have sp: "prefix (trace w1) (trace (emit (Out (ShowPart q)) w1))" for q
    by (simp add: trace_emit)
  have tb: "prefix ?t (trace (tool_branch gen tool fc (emit (Out (ShowPart q)) w1)))" for fc q
    using tool_branch_prefix [of "emit (Out (ShowPart q)) w1" gen tool fc] sp [of q]
    by (intro ext) (rule prefix_order.trans)
  have xb: "prefix ?t (trace (text_branch ct (emit (Out (ShowPart q)) w1)))" for ct q
    using text_branch_frame(3) [of "emit (Out (ShowPart q)) w1" ct] sp [of q]
    by (intro ext) (rule prefix_order.trans)
  from p1 tb xb show ?thesis
    by (simp add: run_turn_def g Let_def split: sum.splits option.splits list.splits)
qed

lemma run_loop_prefix: "prefix (trace w) (trace (snd (run_loop gen tool inputs w)))"
proof (induction inputs arbitrary: w)
  case Nil
  show ?case by simp
next
  case (Cons line rest)
  let ?w1 = "emit (ReadInput line) w"
  obtain r w2 where t: "run_turn gen tool (py_strip line) ?w1 = (r, w2)"
    by (cases "run_turn gen tool (py_strip line) ?w1") auto
  from run_turn_first_event [of ?w1 "py_strip line" gen tool] t
  have "prefix (trace ?w1) (trace w2)" by (auto dest: append_prefixD)
  then have p2: "prefix (trace w) (trace w2)" by (auto simp: trace_emit dest: append_prefixD)
  from p2 Cons [of w2] have "prefix (trace w) (trace (snd (run_loop gen tool rest w2)))"
    by (rule prefix_order.trans)
  with p2 show ?case by (simp add: Let_def t trace_emit split: sum.splits)
qed

section \<open>Properties of the interactive loop\<close>


text \<open>
  Claim C9. When the first part of the first candidate carries no function call, the turn
  calls no tool, whatever the later parts carry: the calls made to the tool server are
  those made before the turn. A later part that carries a function call and no non-empty
  text has its request shown.
\<close>

theorem text_response_never_dispatches:
  assumes "generate_with_retry gen default_max_retries
             (append_content (Some (user_turn (text_part user_input))) w) = (Inr (Some resp), w1)"
    and "candidates resp = cand # cands" and "content cand = Some ct"
    and "parts ct = p # ps" and "function_call p = None"
  shows "run_turn gen tool user_input w = (Inr (), text_branch ct (emit (Out (ShowPart p)) w1))
       \<and> tool_invocations (trace (snd (run_turn gen tool user_input w))) = tool_invocations (trace w)
       \<and> tool_calls (snd (run_turn gen tool user_input w)) = tool_calls w
       \<and> (\<forall>q fc. q \<in> set ps \<and> function_call q = Some fc
              \<and> (part_text q = None \<or> part_text q = Some []) \<longrightarrow>
              Out (ToolRequested (name fc) (args fc)) \<in> set (trace (snd (run_turn gen tool user_input w))))"
proof -
  note fr = generate_with_retry_frame [OF assms(1)]
  have turn: "run_turn gen tool user_input w = (Inr (), text_branch ct (emit (Out (ShowPart p)) w1))"
    using assms(5) by (simp add: run_turn_unfold [OF assms(1-4)])
  have ti: "tool_invocations (trace (text_branch ct (emit (Out (ShowPart p)) w1)))
      = tool_invocations (trace w)"
    using fr(4) by (simp add: text_branch_frame trace_emit tool_invocations_append append_content_facts)
  have tc: "tool_calls (text_branch ct (emit (Out (ShowPart p)) w1)) = tool_calls w"
    using fr(2) by (simp add: text_branch_frame tool_calls_emit append_content_facts)
  have shown: "Out (ToolRequested (name fc) (args fc))
      \<in> set (trace (text_branch ct (emit (Out (ShowPart p)) w1)))"
    if "q \<in> set ps" "function_call q = Some fc" "part_text q = None \<or> part_text q = Some []"
    for q fc
  proof -
    from that(1) assms(4) have "q \<in> set (parts ct)" by simp
    from show_parts_request [OF this that(2,3)] assms(4) show ?thesis
      by (simp add: text_branch_def Let_def)
  qed
  from turn ti tc shown show ?thesis by auto
qed





text \<open>
  Claim C1. After a successful round trip the memory holds the model's function call and
  the user's function response twice each, between the user's text and the final answer:
  lines 136 to 148 append the pair and lines 157 and 158 append it again.
\<close>

theorem round_trip_appends_call_and_response_twice:
  "contents (snd (run weather_backend weather_tool [''get_weather''] [''weather in Paris?'', ''exit'']))
     = [Some (user_turn (text_part ''weather in Paris?'')),
        Some (model_turn (function_call_part weather_call)),
        Some (user_turn (from_function_response ''get_weather'' (JObj [(''result'', JStr ''22C, sunny'')]))),
        Some (model_turn (function_call_part weather_call)),
        Some (user_turn (from_function_response ''get_weather'' (JObj [(''result'', JStr ''22C, sunny'')]))),
        Some (model_turn (text_part ''It is 22C and sunny in Paris.''))]"
  by code_simp




lemma text_then_call_generation:
  "generate_with_retry text_then_call_backend default_max_retries
     (append_content (Some (user_turn (text_part ''hi''))) (initial_world []))
   = (Inr (Some \<lparr>candidates = [\<lparr>content = Some text_then_call\<rparr>]\<rparr>),
      \<lparr>contents = [Some (user_turn (text_part ''hi''))],
       trace = [Out Banner, Out SessionInitialized, Out (AvailableTools []),
                Generate [Some (user_turn (text_part ''hi''))]],
       gen_calls = 1, tool_calls = 0\<rparr>)"
  by code_simp

theorem text_response_never_dispatches_witness:
  "tool_invocations (trace (snd (run_turn text_then_call_backend weather_tool ''hi'' (initial_world []))))
     = []
   \<and> tool_calls (snd (run_turn text_then_call_backend weather_tool ''hi'' (initial_world []))) = 0
   \<and> Out (ToolRequested ''get_weather'' (JObj [(''city'', JStr ''Paris'')]))
       \<in> set (trace (snd (run_turn text_then_call_backend weather_tool ''hi'' (initial_world []))))"
proof -
  have c: "candidates \<lparr>candidates = [\<lparr>content = Some text_then_call\<rparr>]\<rparr>
      = \<lparr>content = Some text_then_call\<rparr> # []"
    by simp
  have k: "content \<lparr>content = Some text_then_call\<rparr> = Some text_then_call" by simp
  have p: "parts text_then_call = text_part ''Let me check.'' # [function_call_part weather_call]"
    by (simp add: text_then_call_def)
  have f: "function_call (text_part ''Let me check.'') = None" by (simp add: text_part_def)
  note t = text_response_never_dispatches [where gen = text_then_call_backend
      and tool = weather_tool and w = "initial_world []" and user_input = "''hi''",
      OF text_then_call_generation c k p f]
  have i: "tool_invocations (trace (initial_world [])) = []" "tool_calls (initial_world []) = 0"
    by (simp_all add: initial_world_def)
  from t [THEN conjunct2, THEN conjunct1] i(1) have 1: "tool_invocations
      (trace (snd (run_turn text_then_call_backend weather_tool ''hi'' (initial_world [])))) = []"
    by (simp only:)
  from t [THEN conjunct2, THEN conjunct2, THEN conjunct1] i(2)
  have 2: "tool_calls (snd (run_turn text_then_call_backend weather_tool ''hi''
      (initial_world []))) = 0"
    by (simp only:)
  have q: "function_call_part weather_call \<in> set [function_call_part weather_call]
      \<and> function_call (function_call_part weather_call) = Some weather_call
      \<and> (part_text (function_call_part weather_call) = None
          \<or> part_text (function_call_part weather_call) = Some [])"
    by (simp add: function_call_part_def)
  from t [THEN conjunct2, THEN conjunct2, THEN conjunct2, rule_format, OF q]
  have 3: "Out (ToolRequested ''get_weather'' (JObj [(''city'', JStr ''Paris'')]))
       \<in> set (trace (snd (run_turn text_then_call_backend weather_tool ''hi'' (initial_world []))))"
    by (simp add: weather_call_def)
  from 1 2 3 show ?thesis by simp
qed




section \<open>Alternation of the roles\<close>

lemma is_user_turns:
  "is_user (Some (user_turn p))" "\<not> is_user (Some (model_turn p))" "\<not> is_user None"
  by (simp_all add: is_user_def user_turn_def model_turn_def)

lemma no_adjacent_users_snoc:
  "no_adjacent_users (xs @ [c])
     \<longleftrightarrow> no_adjacent_users xs \<and> (xs \<noteq> [] \<longrightarrow> \<not> (is_user (last xs) \<and> is_user c))"
  by (induction xs rule: no_adjacent_users.induct) auto

lemma generate_keeps_alternation:
  assumes "generate_with_retry gen default_max_retries w = (res, w')"
    and "no_adjacent_users (contents w)"
    and "\<forall>cs\<in>set (generations (trace w)). no_adjacent_users cs"
  shows "\<forall>cs\<in>set (generations (trace w')). no_adjacent_users cs"
proof -
  from generate_with_retry_frame(5) [OF assms(1)] obtain j where
    "generations (trace w') = generations (trace w) @ replicate (Suc j) (contents w)"
    by auto
  with assms(2,3) show ?thesis by auto
qed

lemma tool_try_keeps_alternation:
  assumes "tool_try gen tool fc w = (Inr (), w')"
    and roles: "\<forall>n cs resp cand. gen n cs = GenOk resp \<longrightarrow> cand \<in> set (candidates resp)
                  \<longrightarrow> \<not> is_user (content cand)"
    and "no_adjacent_users (contents w)"
    and "\<forall>cs\<in>set (generations (trace w)). no_adjacent_users cs"
    and good: "\<forall>resp w0 w1. generate_with_retry gen default_max_retries w0 = (Inr (Some resp), w1)
            \<longrightarrow> (\<forall>cand\<in>set (candidates resp). \<not> is_user (content cand))"
  shows "turn_inv w'"
proof (cases "tool (tool_calls w) (name fc) (args fc)")
  case (ToolRaise msg)
  from tool_try_raise [where tool = tool and w = w and fc = fc and gen = gen, OF ToolRaise] assms(1)
  show ?thesis by simp
next
  case (ToolReturn tr)
  show ?thesis
  proof (cases "result_text tr")
    case (Inl x)
    from tool_try_no_text [where tool = tool and w = w and fc = fc and gen = gen, OF ToolReturn Inl]
      assms(1)
    show ?thesis by simp
  next
    case (Inr rt)
    let ?fr = "from_function_response (name fc) (JObj [(''result'', JStr rt)])"
    let ?w6 = "w\<lparr>contents := contents w @
              [Some (model_turn (function_call_part fc)), Some (user_turn ?fr),
               Some (model_turn (function_call_part fc)), Some (user_turn ?fr)],
            trace := trace w @ [CallTool (name fc) (args fc), Out (ToolResult tr)],
            tool_calls := Suc (tool_calls w)\<rparr>"
    obtain res w7 where g: "generate_with_retry gen default_max_retries ?w6 = (res, w7)"
      by (cases "generate_with_retry gen default_max_retries ?w6") auto
    note fr = generate_with_retry_frame [OF g]
    note tt = tool_try_return [where tool = tool and w = w and fc = fc and gen = gen,
        OF ToolReturn Inr g]
    have c6: "no_adjacent_users (contents ?w6)"
      using assms(3)
      by (simp add: no_adjacent_users_snoc is_user_turns
          no_adjacent_users_snoc [of "xs @ [a, b, c]" d for xs a b c d, simplified]
          no_adjacent_users_snoc [of "xs @ [a, b]" c for xs a b c, simplified]
          no_adjacent_users_snoc [of "xs @ [a]" b for xs a b, simplified])
    have g6: "\<forall>cs\<in>set (generations (trace ?w6)). no_adjacent_users cs"
      using assms(4) by (simp add: generations_append)
    note g7 = generate_keeps_alternation [OF g c6 g6]
    from assms(1) tt fr(6) obtain resp cand cands ct where
      res: "res = Inr (Some resp)" and cand: "candidates resp = cand # cands"
      and ct: "content cand = Some ct"
      and w': "w' = show_final_parts (parts ct) (append_content (Some ct) w7)"
      by (auto split: sum.splits option.splits list.splits)
    from good g res cand ct have nu: "\<not> is_user (Some ct)" by fastforce
    have "contents w' = contents ?w6 @ [Some ct]"
      by (simp add: w' show_final_parts_frame append_content_facts fr(1))
    moreover have "generations (trace w') = generations (trace w7)"
      by (simp add: w' show_final_parts_frame append_content_facts)
    ultimately show ?thesis
      using c6 nu g7 unfolding turn_inv_def
      by (simp only: no_adjacent_users_snoc last_snoc) simp
  qed
qed

lemma retry_loop_response_origin:
  assumes "retry_loop gen m a w = (Inr (Some resp), w')"
  shows "\<exists>n cs. gen n cs = GenOk resp"
  using assms
proof (induction gen m a w rule: retry_loop.induct)
  case (1 gen m a w)
  show ?case
  proof (cases "a < m")
    case False
    with "1.prems" show ?thesis by (subst (asm) retry_loop.simps) simp
  next
    case True
    let ?w1 = "snd (call_generate gen w)"
    have cg: "call_generate gen w = (gen (gen_calls w) (contents w), ?w1)"
      by (simp add: call_generate_def)
    show ?thesis
    proof (cases "gen (gen_calls w) (contents w)")
      case (GenOk r)
      from "1.prems" retry_loop_success [where gen = gen and w = w, OF True GenOk]
      have "r = resp" by simp
      with GenOk show ?thesis by blast
    next
      case (GenRaise e)
      show ?thesis
      proof (cases "\<exists>code body. e = ClientError code body")
        case False
        then have "\<forall>code body. e \<noteq> ClientError code body" by simp
        from "1.prems" retry_loop_other_exn [where gen = gen and w = w, OF True GenRaise this]
        show ?thesis by simp
      next
        case True
        then obtain code body where e: "e = ClientError code body" by auto
        note step = retry_loop_client_error [where gen = gen and w = w, OF \<open>a < m\<close> GenRaise [unfolded e]]
        obtain r2 w2 where oce: "on_client_error m a code body ?w1 = (r2, w2)"
          by (cases "on_client_error m a code body ?w1") auto
        show ?thesis
        proof (cases r2)
          case (Inl x)
          with "1.prems" step oce show ?thesis by simp
        next
          case (Inr u)
          with "1.prems" step oce have rec: "retry_loop gen m (a + 1) w2 = (Inr (Some resp), w')"
            by simp
          from "1.IH" [OF \<open>a < m\<close> cg [symmetric] GenRaise e oce [symmetric] Inr rec]
          show ?thesis .
        qed
      qed
    qed
  qed
qed

lemma run_turn_keeps_alternation:
  assumes roles: "\<forall>n cs resp cand. gen n cs = GenOk resp \<longrightarrow> cand \<in> set (candidates resp)
                  \<longrightarrow> \<not> is_user (content cand)"
    and inv: "turn_inv w"
    and turn: "run_turn gen tool user_input w = (r, w')"
    and nofail: "\<forall>nm. Out (ToolFailed nm) \<notin> set (trace w')"
  shows "(\<forall>cs\<in>set (generations (trace w')). no_adjacent_users cs) \<and> (r = Inr () \<longrightarrow> turn_inv w')"
proof -
  have good: "\<forall>resp w0 w1. generate_with_retry gen default_max_retries w0 = (Inr (Some resp), w1)
            \<longrightarrow> (\<forall>cand\<in>set (candidates resp). \<not> is_user (content cand))"
    using roles retry_loop_response_origin unfolding generate_with_retry_def by blast
  let ?w0 = "append_content (Some (user_turn (text_part user_input))) w"
  have c0: "no_adjacent_users (contents ?w0)"
    using inv by (simp add: turn_inv_def append_content_facts no_adjacent_users_snoc)
  have g0: "\<forall>cs\<in>set (generations (trace ?w0)). no_adjacent_users cs"
    using inv by (simp add: turn_inv_def append_content_facts)
  obtain res w1 where g: "generate_with_retry gen default_max_retries ?w0 = (res, w1)"
    by (cases "generate_with_retry gen default_max_retries ?w0") auto
  note fr = generate_with_retry_frame [OF g]
  note g1 = generate_keeps_alternation [OF g c0 g0]
  have c1: "no_adjacent_users (contents w1)" using c0 fr(1) by simp
  show ?thesis
  proof (cases "\<exists>resp cand cands ct p ps. res = Inr (Some resp) \<and> candidates resp = cand # cands
      \<and> content cand = Some ct \<and> parts ct = p # ps")
    case False
    with turn g have "w' = w1" "r \<noteq> Inr ()"
      by (auto simp: run_turn_def split: sum.splits option.splits list.splits)
    with g1 show ?thesis by simp
  next
    case True
    then obtain resp cand cands ct p ps where
      res: "res = Inr (Some resp)" and cand: "candidates resp = cand # cands"
      and ct: "content cand = Some ct" and ps: "parts ct = p # ps"
      by auto
    note unf = run_turn_unfold [OF g [unfolded res] cand ct ps]
    let ?w2 = "emit (Out (ShowPart p)) w1"
    have c2: "no_adjacent_users (contents ?w2)" using c1 by (simp add: contents_emit)
    have g2: "\<forall>cs\<in>set (generations (trace ?w2)). no_adjacent_users cs"
      using g1 by (simp add: trace_emit generations_append)
    from good g res cand ct have nu: "\<not> is_user (Some ct)" by fastforce
    show ?thesis
    proof (cases "function_call p")
      case None
      with turn unf have r: "r = Inr ()" and w': "w' = text_branch ct ?w2" by simp_all
      have "contents w' = contents ?w0 @ [Some ct]"
        by (simp add: w' text_branch_frame contents_emit fr(1))
      moreover have "generations (trace w') = generations (trace ?w2)"
        by (simp add: w' text_branch_frame)
      ultimately show ?thesis
        using c0 nu g2 unfolding turn_inv_def
        by (simp only: no_adjacent_users_snoc last_snoc) simp
    next
      case (Some fc)
      with turn unf have r: "r = Inr ()" and w': "w' = tool_branch gen tool fc ?w2" by simp_all
      let ?w3 = "emit (Out (ToolRequested (name fc) (args fc))) ?w2"
      obtain r4 w4 where tt: "tool_try gen tool fc ?w3 = (r4, w4)"
        by (cases "tool_try gen tool fc ?w3") auto
      have "r4 = Inr ()"
      proof (cases r4)
        case (Inl e)
        with w' tt have "Out (ToolFailed (name fc)) \<in> set (trace w')"
          by (simp add: tool_branch_def trace_emit)
        with nofail show ?thesis by blast
      qed simp
      with w' tt have w4: "w' = w4" and tt': "tool_try gen tool fc ?w3 = (Inr (), w4)"
        by (simp_all add: tool_branch_def)
      have c3: "no_adjacent_users (contents ?w3)" using c2 by (simp add: contents_emit)
      have g3: "\<forall>cs\<in>set (generations (trace ?w3)). no_adjacent_users cs"
        using g2 by (simp add: trace_emit generations_append)
      from tool_try_keeps_alternation [OF tt' roles c3 g3 good] w4 have "turn_inv w'" by simp
      then show ?thesis by (simp add: turn_inv_def)
    qed
  qed
qed

lemma run_loop_keeps_alternation:
  assumes roles: "\<forall>n cs resp cand. gen n cs = GenOk resp \<longrightarrow> cand \<in> set (candidates resp)
                  \<longrightarrow> \<not> is_user (content cand)"
    and "turn_inv w"
    and "\<forall>nm. Out (ToolFailed nm) \<notin> set (trace (snd (run_loop gen tool inputs w)))"
  shows "\<forall>cs\<in>set (generations (trace (snd (run_loop gen tool inputs w)))). no_adjacent_users cs"
  using assms(2,3)
proof (induction inputs arbitrary: w)
  case Nil
  then show ?case by (simp add: turn_inv_def)
next
  case (Cons line rest)
  let ?w1 = "emit (ReadInput line) w"
  have inv1: "turn_inv ?w1"
    using Cons.prems(1) by (simp add: turn_inv_def emit_def generations_append)
  show ?case
  proof (cases "py_lower (py_strip line) = ''exit''")
    case True
    with inv1 show ?thesis
      by (simp add: Let_def turn_inv_def emit_def generations_append)
  next
    case False
    obtain r w2 where t: "run_turn gen tool (py_strip line) ?w1 = (r, w2)"
      by (cases "run_turn gen tool (py_strip line) ?w1") auto
    show ?thesis
    proof (cases r)
      case (Inl x)
      with False t have rl: "run_loop gen tool (line # rest) w = (Crashed x, w2)"
        by (simp add: Let_def)
      with Cons.prems(2) have "\<forall>nm. Out (ToolFailed nm) \<notin> set (trace w2)" by simp
      from run_turn_keeps_alternation [OF roles inv1 t this] rl show ?thesis by simp
    next
      case (Inr u)
      with False t have rl: "run_loop gen tool (line # rest) w = run_loop gen tool rest w2"
        by (simp add: Let_def)
      have nf: "\<forall>nm. Out (ToolFailed nm) \<notin> set (trace (snd (run_loop gen tool rest w2)))"
        using Cons.prems(2) rl by simp
      have "\<forall>nm. Out (ToolFailed nm) \<notin> set (trace w2)"
        using nf run_loop_prefix [of w2 gen tool rest] by (auto dest: prefix_set_mono)
      from run_turn_keeps_alternation [OF roles inv1 t this] Inr have "turn_inv w2" by simp
      from Cons.IH [OF this nf] rl show ?thesis by simp
    qed
  qed
qed

text \<open>
  Claim C2 fails as stated. When \<^verbatim>\<open>call_tool\<close> raises, the turn appends nothing after
  the user's text, so the next line makes the memory given to the backend hold two user
  turns in a row.
\<close>

theorem consecutive_user_turns_counterexample:
  "[Some (user_turn (text_part ''a'')), Some (user_turn (text_part ''b''))]
     \<in> set (generations (trace (snd (run weather_backend failing_tool [''get_weather'']
                [''a'', ''b'', ''exit'']))))
   \<and> \<not> no_adjacent_users [Some (user_turn (text_part ''a'')), Some (user_turn (text_part ''b''))]"
  by code_simp

text \<open>
  Claim C2, amended. In a run that prints no tool-failure notice (the handler of lines
  172 to 174 is never entered), and whose backend returns no content of role \<open>user\<close>,
  no conversation given to a generation call holds a user turn right after another one.
\<close>

theorem alternation_without_tool_failure:
  assumes "\<forall>n cs resp cand. gen n cs = GenOk resp \<longrightarrow> cand \<in> set (candidates resp)
              \<longrightarrow> \<not> is_user (content cand)"
    and "\<forall>nm. Out (ToolFailed nm) \<notin> set (trace (snd (run gen tool tool_names inputs)))"
  shows "\<forall>cs\<in>set (generations (trace (snd (run gen tool tool_names inputs)))).
           no_adjacent_users cs"
proof -
  have "turn_inv (initial_world tool_names)"
    by (simp add: turn_inv_def initial_world_def)
  from run_loop_keeps_alternation [OF assms(1) this assms(2) [unfolded run_def]]
  show ?thesis by (simp add: run_def)
qed

lemma weather_run_trace:
  "trace (snd (run weather_backend weather_tool [''get_weather''] [''weather in Paris?'', ''exit'']))
     = [Out Banner, Out SessionInitialized, Out (AvailableTools [''get_weather'']),
        ReadInput ''weather in Paris?'',
        Generate [Some (user_turn (text_part ''weather in Paris?''))],
        Out (ShowPart (function_call_part weather_call)),
        Out (ToolRequested ''get_weather'' (JObj [(''city'', JStr ''Paris'')])),
        CallTool ''get_weather'' (JObj [(''city'', JStr ''Paris'')]),
        Out (ToolResult weather_result),
        Generate [Some (user_turn (text_part ''weather in Paris?'')),
                  Some (model_turn (function_call_part weather_call)),
                  Some (user_turn (from_function_response ''get_weather''
                          (JObj [(''result'', JStr ''22C, sunny'')]))),
                  Some (model_turn (function_call_part weather_call)),
                  Some (user_turn (from_function_response ''get_weather''
                          (JObj [(''result'', JStr ''22C, sunny'')])))],
        Out (Assistant ''It is 22C and sunny in Paris.''),
        ReadInput ''exit'', Out Exiting]"
  by code_simp

theorem alternation_without_tool_failure_witness:
  "no_adjacent_users [Some (user_turn (text_part ''weather in Paris?''))]
   \<and> no_adjacent_users
        [Some (user_turn (text_part ''weather in Paris?'')),
         Some (model_turn (function_call_part weather_call)),
         Some (user_turn (from_function_response ''get_weather''
                 (JObj [(''result'', JStr ''22C, sunny'')]))),
         Some (model_turn (function_call_part weather_call)),
         Some (user_turn (from_function_response ''get_weather''
                 (JObj [(''result'', JStr ''22C, sunny'')])))]"
proof -
  have roles: "\<forall>n cs resp cand. weather_backend n cs = GenOk resp \<longrightarrow> cand \<in> set (candidates resp)
      \<longrightarrow> \<not> is_user (content cand)"
    by (auto simp: weather_backend_def weather_request_def weather_answer_def is_user_def
        model_turn_def split: if_splits)
  have nofail: "\<forall>nm. Out (ToolFailed nm) \<notin> set (trace (snd (run weather_backend weather_tool
      [''get_weather''] [''weather in Paris?'', ''exit''])))"
    unfolding weather_run_trace by simp
  from alternation_without_tool_failure [OF roles nofail]
  show ?thesis unfolding weather_run_trace by simp
qed

end
